theory Spec2Isabelle
  imports Main "HOL-Library.Word"
begin

unbundle bit_operations_syntax

section \<open>The cache instance of arangod/Cache/Cache.cpp\<close>

text \<open>
  A shallow embedding of \<^verbatim>\<open>src/arangod/Cache/Cache.cpp\<close>: the lookup handle
  \<^verbatim>\<open>Cache::Finding\<close> with its lease and release of cached values, the queries
  \<^verbatim>\<open>limit\<close> and \<^verbatim>\<open>usage\<close>, \<^verbatim>\<open>resize\<close> and \<^verbatim>\<open>requestResize\<close>, the adaptive trigger
  \<^verbatim>\<open>requestMigrate\<close>, the reclamation helper \<^verbatim>\<open>freeValue\<close>, \<^verbatim>\<open>hashKey\<close>, the constructor
  and the two shutdown operations.

  The headers the file includes (\<^verbatim>\<open>Cache.h\<close>, \<^verbatim>\<open>CachedValue.h\<close>, \<^verbatim>\<open>State.h\<close>, \<^verbatim>\<open>Metadata.h\<close>,
  \<^verbatim>\<open>Manager.h\<close>, \<^verbatim>\<open>FrequencyBuffer.h\<close>, \<^verbatim>\<open>fasthash.h\<close>) are not among the sources. What
  the functions of \<^verbatim>\<open>Cache.cpp\<close> need from them is either a parameter of the model (the
  coordinator's answers, the hash function, the clock, the outcome of a bounded lock
  attempt) or a small definition marked as modelled from the specification.
\<close>

type_synonym u32 = "32 word"
type_synonym u64 = "64 word"
type_synonym byte = "8 word"

subsection \<open>hashKey\<close>

text \<open>
  \<^verbatim>\<open>return (std::max)(static_cast<uint32_t>(1), fasthash32(key, keySize, 0xdeadbeefUL));\<close>
  The hash function \<^verbatim>\<open>fasthash32\<close> (of \<^verbatim>\<open>Basics/fasthash.h\<close>) is a parameter; the key is
  the byte sequence behind the \<^verbatim>\<open>void const*\<close>.
\<close>

definition hashKey :: "(byte list \<Rightarrow> u32 \<Rightarrow> u32 \<Rightarrow> u32) \<Rightarrow> byte list \<Rightarrow> u32 \<Rightarrow> u32" where
  "hashKey fasthash32 key keySize = max (1 :: u32) (fasthash32 key keySize 0xdeadbeef)"

subsection \<open>Cached values and the lookup handle Finding\<close>

text \<open>
  Objects are identified by their addresses. A \<^verbatim>\<open>CachedValue*\<close> is \<open>None\<close> for
  \<^verbatim>\<open>nullptr\<close> and \<open>Some a\<close> for the value at address \<open>a\<close>. The store holds, for each
  address, the value's \<^verbatim>\<open>refCount\<close>, how often \<^verbatim>\<open>delete\<close> has run on it, and the \<^verbatim>\<open>_value\<close>
  member of the \<^verbatim>\<open>Finding\<close> object at that address; \<open>live\<close> lists the \<^verbatim>\<open>Finding\<close> objects
  that have been constructed and not yet destroyed. Two references to the same
  \<^verbatim>\<open>Finding\<close> are the same address, which is what \<^verbatim>\<open>&other == this\<close> tests.
\<close>

type_synonym addr = nat
type_synonym value_ptr = "addr option"

record store =
  refCount :: "addr \<Rightarrow> int"
  deleted :: "addr \<Rightarrow> nat"
  Finding_value :: "addr \<Rightarrow> value_ptr"
  live :: "addr list"

text \<open>
  Modelled from the spec: \<^verbatim>\<open>CachedValue::lease\<close> and \<^verbatim>\<open>CachedValue::release\<close>
  (\<^verbatim>\<open>CachedValue.h\<close> is not among the sources): the atomic increment and decrement of the
  value's lease count.
\<close>

definition lease :: "addr \<Rightarrow> store \<Rightarrow> store" where
  "lease v h = h\<lparr>refCount := (refCount h)(v := refCount h v + 1)\<rparr>"

definition release :: "addr \<Rightarrow> store \<Rightarrow> store" where
  "release v h = h\<lparr>refCount := (refCount h)(v := refCount h v - 1)\<rparr>"

text \<open>\<^verbatim>\<open>if (_value != nullptr) { _value->lease(); }\<close> and its counterpart with release.\<close>

definition lease_if_found :: "value_ptr \<Rightarrow> store \<Rightarrow> store" where
  "lease_if_found p h = (case p of None \<Rightarrow> h | Some v \<Rightarrow> lease v h)"

definition release_if_found :: "value_ptr \<Rightarrow> store \<Rightarrow> store" where
  "release_if_found p h = (case p of None \<Rightarrow> h | Some v \<Rightarrow> release v h)"

text \<open>\<^verbatim>\<open>Finding::Finding(CachedValue* v) : _value(v)\<close>, constructing the object at \<open>this\<close>.\<close>

definition Finding_ctor :: "addr \<Rightarrow> value_ptr \<Rightarrow> store \<Rightarrow> store" where
  "Finding_ctor this v h =
     (let h1 = h\<lparr>Finding_value := (Finding_value h)(this := v), live := this # live h\<rparr>
      in lease_if_found (Finding_value h1 this) h1)"

text \<open>\<^verbatim>\<open>Finding::Finding(Finding const& other) : _value(other._value)\<close>\<close>

definition Finding_copy_ctor :: "addr \<Rightarrow> addr \<Rightarrow> store \<Rightarrow> store" where
  "Finding_copy_ctor this other h =
     (let h1 = h\<lparr>Finding_value := (Finding_value h)(this := Finding_value h other),
                  live := this # live h\<rparr>
      in lease_if_found (Finding_value h1 this) h1)"

text \<open>\<^verbatim>\<open>Finding::Finding(Finding&& other) : _value(other._value) { other._value = nullptr; }\<close>\<close>

definition Finding_move_ctor :: "addr \<Rightarrow> addr \<Rightarrow> store \<Rightarrow> store" where
  "Finding_move_ctor this other h =
     (let h1 = h\<lparr>Finding_value := (Finding_value h)(this := Finding_value h other),
                  live := this # live h\<rparr>
      in h1\<lparr>Finding_value := (Finding_value h1)(other := None)\<rparr>)"

text \<open>\<^verbatim>\<open>Finding& Finding::operator=(Finding const& other)\<close>\<close>

definition Finding_assign_copy :: "addr \<Rightarrow> addr \<Rightarrow> store \<Rightarrow> store" where
  "Finding_assign_copy this other h =
     (if other = this then h
      else
        let h1 = release_if_found (Finding_value h this) h;
            h2 = h1\<lparr>Finding_value := (Finding_value h1)(this := Finding_value h1 other)\<rparr>
        in lease_if_found (Finding_value h2 this) h2)"

text \<open>\<^verbatim>\<open>Finding& Finding::operator=(Finding&& other)\<close>\<close>

definition Finding_assign_move :: "addr \<Rightarrow> addr \<Rightarrow> store \<Rightarrow> store" where
  "Finding_assign_move this other h =
     (if other = this then h
      else
        let h1 = release_if_found (Finding_value h this) h;
            h2 = h1\<lparr>Finding_value := (Finding_value h1)(this := Finding_value h1 other)\<rparr>
        in h2\<lparr>Finding_value := (Finding_value h2)(other := None)\<rparr>)"

text \<open>\<^verbatim>\<open>Finding::~Finding()\<close>; the object at \<open>this\<close> is no longer live afterwards.\<close>

definition Finding_dtor :: "addr \<Rightarrow> store \<Rightarrow> store" where
  "Finding_dtor this h =
     (let h1 = release_if_found (Finding_value h this) h
      in h1\<lparr>live := removeAll this (live h1)\<rparr>)"

text \<open>\<^verbatim>\<open>void Finding::reset(CachedValue* v)\<close>\<close>

definition Finding_reset :: "addr \<Rightarrow> value_ptr \<Rightarrow> store \<Rightarrow> store" where
  "Finding_reset this v h =
     (let h1 = release_if_found (Finding_value h this) h;
          h2 = h1\<lparr>Finding_value := (Finding_value h1)(this := v)\<rparr>
      in lease_if_found (Finding_value h2 this) h2)"

text \<open>\<^verbatim>\<open>bool Finding::found() const\<close> and \<^verbatim>\<open>CachedValue const* Finding::value() const\<close>\<close>

definition found :: "addr \<Rightarrow> store \<Rightarrow> bool" where
  "found this h = (Finding_value h this \<noteq> None)"

definition Finding_value_of :: "addr \<Rightarrow> store \<Rightarrow> value_ptr" where
  "Finding_value_of this h = Finding_value h this"

text \<open>
  The number of live \<^verbatim>\<open>Finding\<close> objects that refer to the value at \<open>v\<close>, and the leases
  of \<open>v\<close> that no live \<^verbatim>\<open>Finding\<close> accounts for (zero when every lease is held by a handle).
\<close>

primrec count_refs :: "(addr \<Rightarrow> value_ptr) \<Rightarrow> addr \<Rightarrow> addr list \<Rightarrow> nat" where
  "count_refs fv v [] = 0"
| "count_refs fv v (f # fs) = (if fv f = Some v then 1 else 0) + count_refs fv v fs"

definition holders :: "store \<Rightarrow> addr \<Rightarrow> nat" where
  "holders h v = count_refs (Finding_value h) v (live h)"

definition other_leases :: "store \<Rightarrow> addr \<Rightarrow> int" where
  "other_leases h v = refCount h v - int (holders h v)"


subsection \<open>freeValue\<close>

text \<open>
  \<^verbatim>\<open>while (value->refCount.load() > 0) { usleep(1); }  delete value;\<close>
  The function runs while other threads lease and release the value, so it is a small
  step machine: \<open>Polling\<close> is the loop (each step loads the count once and either sleeps and
  stays, or leaves the loop), \<open>Deleting\<close> is the point between the loop and \<^verbatim>\<open>delete\<close>, and
  \<open>Returned\<close> is after the function has returned.
\<close>

datatype freeValue_pc = Polling | Deleting | Returned

definition freeValue_step :: "addr \<Rightarrow> freeValue_pc \<times> store \<Rightarrow> freeValue_pc \<times> store" where
  "freeValue_step v s =
     (case fst s of
        Polling \<Rightarrow> if refCount (snd s) v > 0 then (Polling, snd s) else (Deleting, snd s)
      | Deleting \<Rightarrow> (Returned, (snd s)\<lparr>deleted := (deleted (snd s))(v := deleted (snd s) v + 1)\<rparr>)
      | Returned \<Rightarrow> s)"

text \<open>
  A schedule interleaves the steps of \<^verbatim>\<open>freeValue(v)\<close> with the leases and releases that
  other threads perform on the same value.
\<close>

datatype event = Lease | Release | FreeValue

fun step :: "addr \<Rightarrow> event \<Rightarrow> freeValue_pc \<times> store \<Rightarrow> freeValue_pc \<times> store" where
  "step v Lease s = (fst s, lease v (snd s))"
| "step v Release s = (fst s, release v (snd s))"
| "step v FreeValue s = freeValue_step v s"

fun run :: "addr \<Rightarrow> event list \<Rightarrow> freeValue_pc \<times> store \<Rightarrow> freeValue_pc \<times> store" where
  "run v [] s = s"
| "run v (e # es) s = run v es (step v e s)"

text \<open>
  The schedules that can occur once the value is unlinked from all tables: a release is
  performed by a holder of a lease, and a new lease can only be taken by copying a
  \<^verbatim>\<open>Finding\<close> that still holds one (lookups no longer reach the value), so both happen only
  while the count is positive. The steps of \<^verbatim>\<open>freeValue\<close> are never restricted.
\<close>

fun admissible :: "addr \<Rightarrow> event list \<Rightarrow> freeValue_pc \<times> store \<Rightarrow> bool" where
  "admissible v [] s = True"
| "admissible v (e # es) s =
     ((e = FreeValue \<or> 0 < refCount (snd s) v) \<and> admissible v es (step v e s))"

text \<open>What holds of the value at each point of \<^verbatim>\<open>freeValue\<close>.\<close>

definition freeValue_inv :: "addr \<Rightarrow> freeValue_pc \<times> store \<Rightarrow> bool" where
  "freeValue_inv v s =
     (0 \<le> refCount (snd s) v \<and>
      (case fst s of
         Polling \<Rightarrow> deleted (snd s) v = 0
       | Deleting \<Rightarrow> deleted (snd s) v = 0 \<and> refCount (snd s) v = 0
       | Returned \<Rightarrow> deleted (snd s) v = 1 \<and> refCount (snd s) v = 0))"


subsection \<open>State: the lock and the flags\<close>

text \<open>
  Modelled from the spec: the class \<^verbatim>\<open>State\<close> (\<^verbatim>\<open>State.h\<close> is not among the sources). It
  packs one mutual-exclusion bit with the flags; a state is the set of bits that are set.
  \<^verbatim>\<open>lock(maxTries)\<close> with \<^verbatim>\<open>maxTries < 0\<close> (the default) spins until it holds the lock, and
  with a bound returns false, without side effects, when the lock does not become free
  within the bounded tries: whether it does is the parameter \<open>free\<close>. \<^verbatim>\<open>toggleFlag\<close> flips
  one flag, \<^verbatim>\<open>clear\<close> resets all flags and leaves the lock with its holder.
\<close>

datatype Flag = Flag_locked | Flag_migrating | Flag_resizing | Flag_shutdown | Flag_shuttingDown

type_synonym State = "Flag set"

definition isSet :: "State \<Rightarrow> Flag \<Rightarrow> bool" where
  "isSet s f = (f \<in> s)"

definition isLocked :: "State \<Rightarrow> bool" where
  "isLocked s = (Flag_locked \<in> s)"

definition toggleFlag :: "Flag \<Rightarrow> State \<Rightarrow> State" where
  "toggleFlag f s = (if f \<in> s then s - {f} else insert f s)"

definition State_clear :: "State \<Rightarrow> State" where
  "State_clear s = s \<inter> {Flag_locked}"

definition State_lock :: "int \<Rightarrow> bool \<Rightarrow> State \<Rightarrow> bool \<times> State" where
  "State_lock maxTries free s =
     (if maxTries < 0 \<or> free then (True, insert Flag_locked s) else (False, s))"

definition State_unlock :: "State \<Rightarrow> State" where
  "State_unlock s = s - {Flag_locked}"

subsection \<open>The coordinator and its metadata\<close>

text \<open>
  Modelled from the spec: the metadata handle (\<^verbatim>\<open>Metadata.h\<close> is not among the sources)
  with its soft limit, hard limit, usage, table log-size and its own flags. Its own lock
  is taken and released around each read in \<^verbatim>\<open>Cache.cpp\<close>; a read is one atomic step here.
\<close>

record Metadata =
  md_softLimit :: u64
  md_hardLimit :: u64
  md_usage :: u64
  md_logSize :: u32
  md_state :: State

text \<open>
  The coordinator (\<^verbatim>\<open>Manager.h\<close> is not among the sources) is a parameter: what
  \<^verbatim>\<open>registerCache\<close> answers (the metadata, or an exception), and the pair (accepted, next
  allowed time) that \<^verbatim>\<open>requestResize\<close> and \<^verbatim>\<open>requestMigrate\<close> return. Time points of the
  steady clock are natural numbers. The calls a cache makes to the coordinator are
  recorded in the cache's \<open>c_calls\<close>, in order.
\<close>

type_synonym time_point = nat

datatype exn = bad_alloc | other_exception

record Manager =
  Manager_registerCache :: "u64 \<Rightarrow> exn + Metadata"
  Manager_requestResize :: "Metadata \<Rightarrow> u64 \<Rightarrow> bool \<times> time_point"
  Manager_requestMigrate :: "Metadata \<Rightarrow> u32 \<Rightarrow> bool \<times> time_point"

datatype call = RegisterCache u64 | UnregisterCache | RequestResize u64 | RequestMigrate u32

subsection \<open>The cache instance\<close>

text \<open>
  The outcome tags recorded in \<^verbatim>\<open>_evictionStats\<close>. The code names \<^verbatim>\<open>Stat::eviction\<close> only and
  compares tags after the cast to \<^verbatim>\<open>uint8_t\<close>, which maps different enumerators to
  different numbers; the tags are compared directly here.
\<close>

datatype Stat = eviction | noEviction

text \<open>
  The members of \<^verbatim>\<open>Cache\<close> that \<^verbatim>\<open>Cache.cpp\<close> uses. The sampler \<^verbatim>\<open>_evictionStats\<close>
  (\<^verbatim>\<open>FrequencyBuffer.h\<close> is not among the sources) is represented by the breakdown that
  \<^verbatim>\<open>getFrequencies()\<close> returns for it, a vector of (tag, count) pairs, and \<^verbatim>\<open>clear()\<close> leaves
  the empty breakdown. \<open>c_metadata\<close> is \<open>None\<close> when the cache holds no registration (it was
  never registered, or it has been unregistered); using it then is the fault
  \<open>InvalidMetadata\<close>. The counter of open operations is an unbounded integer; of the
  insertion counter only the low 12 bits matter, and it is taken to be 64 bits wide.
\<close>

record Cache =
  c_state :: State
  c_allowGrowth :: bool
  c_evictionStats :: "(Stat \<times> u64) list"
  c_insertionCount :: u64
  c_openOperations :: int
  c_migrateRequestTime :: time_point
  c_resizeRequestTime :: time_point
  c_metadata :: "Metadata option"
  c_calls :: "call list"

text \<open>
  A function of the cache returns its result, or a fault: \<open>AssertionFailed\<close> is a failed
  \<^verbatim>\<open>TRI_ASSERT\<close>, \<open>InvalidMetadata\<close> the use of a registration the cache does not hold, and
  \<open>Spinning\<close> a busy-wait that has not ended when the schedule of the other threads ends
  (the function has not returned).
\<close>

datatype fault = AssertionFailed | InvalidMetadata | Spinning

text \<open>\<^verbatim>\<open>bool Cache::isOperational() const\<close>, with its \<^verbatim>\<open>TRI_ASSERT(_state.isLocked())\<close>\<close>

definition isOperational :: "State \<Rightarrow> fault + bool" where
  "isOperational s =
     (if \<not> isLocked s then Inl AssertionFailed
      else Inr (\<not> isSet s Flag_shutdown \<and> \<not> isSet s Flag_shuttingDown))"

text \<open>\<^verbatim>\<open>bool Cache::isMigrating() const\<close>\<close>

definition isMigrating :: "State \<Rightarrow> fault + bool" where
  "isMigrating s = (if \<not> isLocked s then Inl AssertionFailed else Inr (isSet s Flag_migrating))"

text \<open>\<^verbatim>\<open>void Cache::startOperation() { ++_openOperations; }\<close> and \<^verbatim>\<open>endOperation\<close>\<close>

definition startOperation :: "Cache \<Rightarrow> Cache" where
  "startOperation c = c\<lparr>c_openOperations := c_openOperations c + 1\<rparr>"

definition endOperation :: "Cache \<Rightarrow> Cache" where
  "endOperation c = c\<lparr>c_openOperations := c_openOperations c - 1\<rparr>"

text \<open>\<^verbatim>\<open>uint64_t Cache::limit()\<close>\<close>

definition limit :: "Cache \<Rightarrow> fault + (u64 \<times> Cache)" where
  "limit c =
     (let c1 = c\<lparr>c_state := snd (State_lock (- 1) False (c_state c))\<rparr> in
      case isOperational (c_state c1) of
        Inl f \<Rightarrow> Inl f
      | Inr operational \<Rightarrow>
          if operational then
            (case c_metadata c1 of
               None \<Rightarrow> Inl InvalidMetadata
             | Some m \<Rightarrow> Inr (md_softLimit m, c1\<lparr>c_state := State_unlock (c_state c1)\<rparr>))
          else Inr (0, c1\<lparr>c_state := State_unlock (c_state c1)\<rparr>))"

text \<open>\<^verbatim>\<open>uint64_t Cache::usage()\<close>\<close>

definition usage :: "Cache \<Rightarrow> fault + (u64 \<times> Cache)" where
  "usage c =
     (let c1 = c\<lparr>c_state := snd (State_lock (- 1) False (c_state c))\<rparr> in
      case isOperational (c_state c1) of
        Inl f \<Rightarrow> Inl f
      | Inr operational \<Rightarrow>
          if operational then
            (case c_metadata c1 of
               None \<Rightarrow> Inl InvalidMetadata
             | Some m \<Rightarrow> Inr (md_usage m, c1\<lparr>c_state := State_unlock (c_state c1)\<rparr>))
          else Inr (0, c1\<lparr>c_state := State_unlock (c_state c1)\<rparr>))"

text \<open>
  \<^verbatim>\<open>bool Cache::requestResize(uint64_t requestedLimit, bool internal)\<close>. \<open>now\<close> is what the
  steady clock shows, \<open>free\<close> whether the bounded lock attempt of an internal request
  succeeds. The product \<^verbatim>\<open>_metadata->hardLimit() * 2\<close> is a 64-bit product.
\<close>

definition requestResize ::
  "Manager \<Rightarrow> time_point \<Rightarrow> bool \<Rightarrow> u64 \<Rightarrow> bool \<Rightarrow> Cache \<Rightarrow> fault + (bool \<times> Cache)" where
  "requestResize mgr now free requestedLimit internal c =
     (let lockTries = (if internal then 10 else - 1);
          (ok, s1) = State_lock lockTries free (c_state c)
      in if ok then
           if \<not> internal \<or> (c_allowGrowth c \<and> now > c_resizeRequestTime c) then
             (case c_metadata c of
                None \<Rightarrow> Inl InvalidMetadata
              | Some m \<Rightarrow>
                  let newLimit = (if requestedLimit > 0 then requestedLimit
                                  else md_hardLimit m * 2);
                      result = Manager_requestResize mgr m newLimit
                  in Inr (fst result,
                          c\<lparr>c_resizeRequestTime := snd result,
                            c_calls := c_calls c @ [RequestResize newLimit],
                            c_state := State_unlock s1\<rparr>))
           else Inr (False, c\<lparr>c_state := State_unlock s1\<rparr>)
         else Inr (False, c))"

text \<open>
  The loop of \<^verbatim>\<open>resize\<close> that waits for previous resizes to finish: it polls the metadata's
  \<^verbatim>\<open>resizing\<close> flag until it is clear. The flag is cleared by the coordinator; the list gives
  the value the coordinator has left in the flag at each further poll. When the list ends
  and the flag is still set, the loop is still spinning.
\<close>

fun awaitNotResizing :: "bool list \<Rightarrow> Metadata \<Rightarrow> Metadata option" where
  "awaitNotResizing [] m = (if isSet (md_state m) Flag_resizing then None else Some m)"
| "awaitNotResizing (b # bs) m =
     (if isSet (md_state m) Flag_resizing
      then awaitNotResizing bs
             (m\<lparr>md_state := (if b then insert Flag_resizing (md_state m)
                              else md_state m - {Flag_resizing})\<rparr>)
      else Some m)"

text \<open>\<^verbatim>\<open>bool Cache::resize(uint64_t requestedLimit)\<close>\<close>

definition resize ::
  "Manager \<Rightarrow> time_point \<Rightarrow> bool list \<Rightarrow> u64 \<Rightarrow> Cache \<Rightarrow> fault + (bool \<times> Cache)" where
  "resize mgr now polls requestedLimit c =
     (let c1 = c\<lparr>c_state := snd (State_lock (- 1) False (c_state c))\<rparr> in
      case isOperational (c_state c1) of
        Inl f \<Rightarrow> Inl f
      | Inr allowed \<Rightarrow>
          let c2 = startOperation c1;
              c3 = c2\<lparr>c_state := State_unlock (c_state c2)\<rparr>
          in if allowed then
               (case c_metadata c3 of
                  None \<Rightarrow> Inl InvalidMetadata
                | Some m \<Rightarrow>
                    (case awaitNotResizing polls m of
                       None \<Rightarrow> Inl Spinning
                     | Some m' \<Rightarrow>
                         (case requestResize mgr now False requestedLimit False
                                 (c3\<lparr>c_metadata := Some m'\<rparr>) of
                            Inl f \<Rightarrow> Inl f
                          | Inr (resized, c4) \<Rightarrow> Inr (resized, endOperation c4))))
             else Inr (False, endOperation c3))"

text \<open>
  \<^verbatim>\<open>void Cache::requestMigrate(uint32_t requestedLogSize)\<close>. The two indexed reads of the
  breakdown are guarded by the tests of its size, as in the code.
\<close>

definition migratePressure :: "(Stat \<times> u64) list \<Rightarrow> bool" where
  "migratePressure stats =
     ((length stats = 1 \<and> fst (stats ! 0) = eviction) \<or>
      (length stats = 2 \<and> snd (stats ! 0) * 16 > snd (stats ! 1)))"

definition requestMigrate ::
  "Manager \<Rightarrow> time_point \<Rightarrow> bool \<Rightarrow> u32 \<Rightarrow> Cache \<Rightarrow> fault + Cache" where
  "requestMigrate mgr now free requestedLogSize c =
     (let c1 = c\<lparr>c_insertionCount := c_insertionCount c + 1\<rparr> in
      if c_insertionCount c1 AND 0xFFF = 0 then
        let stats = c_evictionStats c1 in
        if migratePressure stats then
          let (ok, s1) = State_lock 10 free (c_state c1) in
          if ok then
            (case isMigrating s1 of
               Inl f \<Rightarrow> Inl f
             | Inr mig \<Rightarrow>
                 if \<not> mig \<and> now > c_migrateRequestTime c1 then
                   (case c_metadata c1 of
                      None \<Rightarrow> Inl InvalidMetadata
                    | Some m \<Rightarrow>
                        let newLogSize = (if requestedLogSize > 0 then requestedLogSize
                                          else md_logSize m + 1);
                            result = Manager_requestMigrate mgr m newLogSize;
                            c2 = c1\<lparr>c_resizeRequestTime := snd result,
                                    c_calls := c_calls c1 @ [RequestMigrate newLogSize]\<rparr>;
                            c3 = (if fst result then c2\<lparr>c_evictionStats := []\<rparr> else c2)
                        in Inr (c3\<lparr>c_state := State_unlock s1\<rparr>))
                 else Inr (c1\<lparr>c_state := State_unlock s1\<rparr>))
          else Inr c1
        else Inr c1
      else Inr c1)"

text \<open>
  \<^verbatim>\<open>Cache::Cache(Manager* manager, uint64_t requestedLimit, bool allowGrowth, ...)\<close>. The two
  time stamps are two readings of the clock. Only \<^verbatim>\<open>std::bad_alloc\<close> is caught; any other
  exception of \<^verbatim>\<open>registerCache\<close> leaves the constructor.
\<close>

definition Cache_ctor ::
  "Manager \<Rightarrow> time_point \<Rightarrow> time_point \<Rightarrow> u64 \<Rightarrow> bool \<Rightarrow> exn + Cache" where
  "Cache_ctor mgr now1 now2 requestedLimit allowGrowth =
     (let c0 = \<lparr>c_state = {}, c_allowGrowth = allowGrowth, c_evictionStats = [],
                c_insertionCount = 0, c_openOperations = 0,
                c_migrateRequestTime = now1, c_resizeRequestTime = now2,
                c_metadata = None, c_calls = [RegisterCache requestedLimit]\<rparr>
      in case Manager_registerCache mgr requestedLimit of
           Inr m \<Rightarrow> Inr (c0\<lparr>c_metadata := Some m\<rparr>)
         | Inl bad_alloc \<Rightarrow>
             Inr (if \<not> isSet (c_state c0) Flag_shutdown
                  then c0\<lparr>c_state := toggleFlag Flag_shutdown (c_state c0)\<rparr> else c0)
         | Inl other_exception \<Rightarrow> Inl other_exception)"

text \<open>\<^verbatim>\<open>void Cache::beginShutdown()\<close>\<close>

definition beginShutdown :: "Cache \<Rightarrow> Cache" where
  "beginShutdown c =
     (let s1 = snd (State_lock (- 1) False (c_state c));
          s2 = (if \<not> isSet s1 Flag_shutdown \<and> \<not> isSet s1 Flag_shuttingDown
                then toggleFlag Flag_shuttingDown s1 else s1)
      in c\<lparr>c_state := State_unlock s2\<rparr>)"

text \<open>
  The drain loop of \<^verbatim>\<open>shutdown\<close>: \<^verbatim>\<open>while (_openOperations.load() > 0)\<close> it releases the lock,
  sleeps and takes the lock again. The counter is changed by the other threads, whose
  operations end (or begin and end); the list gives the change of the counter during each
  sleep. When the list ends and the counter is still positive, the loop is still spinning.
\<close>

fun drain :: "int list \<Rightarrow> Cache \<Rightarrow> Cache option" where
  "drain [] c = (if c_openOperations c > 0 then None else Some c)"
| "drain (d # ds) c =
     (if c_openOperations c > 0
      then drain ds (c\<lparr>c_openOperations := c_openOperations c + d\<rparr>)
      else Some c)"

text \<open>
  \<^verbatim>\<open>void Cache::shutdown()\<close>. \<^verbatim>\<open>clearTables()\<close> belongs to the concrete cache and touches none
  of the members modelled here; after \<^verbatim>\<open>unregisterCache\<close> the cache holds no registration.
\<close>

definition shutdown :: "int list \<Rightarrow> Cache \<Rightarrow> fault + Cache" where
  "shutdown others c =
     (let c1 = c\<lparr>c_state := snd (State_lock (- 1) False (c_state c))\<rparr> in
      if \<not> isSet (c_state c1) Flag_shutdown then
        let c2 = (if \<not> isSet (c_state c1) Flag_shuttingDown
                  then c1\<lparr>c_state := toggleFlag Flag_shuttingDown (c_state c1)\<rparr> else c1)
        in case drain others c2 of
             None \<Rightarrow> Inl Spinning
           | Some c3 \<Rightarrow>
               (case c_metadata c3 of
                  None \<Rightarrow> Inl InvalidMetadata
                | Some m \<Rightarrow>
                    let c4 = c3\<lparr>c_state := toggleFlag Flag_shutdown (State_clear (c_state c3))\<rparr>;
                        c5 = c4\<lparr>c_calls := c_calls c4 @ [UnregisterCache], c_metadata := None\<rparr>
                    in Inr (c5\<lparr>c_state := State_unlock (c_state c5)\<rparr>))
      else Inr (c1\<lparr>c_state := State_unlock (c_state c1)\<rparr>))"


text \<open>The store before anything is allocated: no leases, no live \<^verbatim>\<open>Finding\<close>.\<close>

definition empty_store :: store where
  "empty_store =
     \<lparr>refCount = (\<lambda>_. 0), deleted = (\<lambda>_. 0), Finding_value = (\<lambda>_. None), live = []\<rparr>"

text \<open>
  An example store: the value at address 5 with one lease, held by the live \<^verbatim>\<open>Finding\<close> at
  address 1; nothing else is allocated. It is the empty store after a first \<^verbatim>\<open>Finding\<close> for
  the value has been constructed.
\<close>

definition example_store :: store where
  "example_store =
     \<lparr>refCount = (\<lambda>_. 0)(5 := 1), deleted = (\<lambda>_. 0),
      Finding_value = (\<lambda>_. None)(1 := Some 5), live = [1]\<rparr>"


text \<open>
  An example schedule for the value at address 5 of the example store: \<^verbatim>\<open>freeValue\<close> polls
  while the handle is copied and then both handles are dropped.
\<close>

definition example_schedule :: "event list" where
  "example_schedule = [FreeValue, Lease, FreeValue, Release, Release, FreeValue, FreeValue]"


text \<open>
  An example cache: registered with a hard limit of 2000, 4095 insertions so far, a
  breakdown of 10 evictions and 5 other outcomes, and both cooldown time stamps at 10. The
  example coordinator fails every registration for lack of memory and rejects every
  request, allowing the next one at time 100.
\<close>

definition example_metadata :: Metadata where
  "example_metadata =
     \<lparr>md_softLimit = 1000, md_hardLimit = 2000, md_usage = 500, md_logSize = 10,
      md_state = {}\<rparr>"

definition example_manager :: Manager where
  "example_manager =
     \<lparr>Manager_registerCache = (\<lambda>_. Inl bad_alloc),
      Manager_requestResize = (\<lambda>_ _. (False, 100)),
      Manager_requestMigrate = (\<lambda>_ _. (False, 100))\<rparr>"

definition example_cache :: Cache where
  "example_cache =
     \<lparr>c_state = {}, c_allowGrowth = True,
      c_evictionStats = [(eviction, 10), (noEviction, 5)],
      c_insertionCount = 4095, c_openOperations = 0,
      c_migrateRequestTime = 10, c_resizeRequestTime = 10,
      c_metadata = Some example_metadata, c_calls = []\<rparr>"


section \<open>Properties\<close>

subsection \<open>hashKey never returns the reserved hash 0\<close>

text \<open>
  Claim C9. For every key and key size (and whatever \<^verbatim>\<open>fasthash32\<close> computes), \<^verbatim>\<open>hashKey\<close>
  returns a hash of at least 1 and never 0: a zero hash is clamped to 1, every other hash
  is returned as it is.
\<close>

theorem hashKey_at_least_one:
  "1 \<le> hashKey fasthash32 key keySize
   \<and> hashKey fasthash32 key keySize \<noteq> 0
   \<and> hashKey fasthash32 key keySize =
       (if fasthash32 key keySize 0xdeadbeef = 0 then 1 else fasthash32 key keySize 0xdeadbeef)"
proof -
  let ?h = "fasthash32 key keySize 0xdeadbeef"
  have le: "1 \<le> hashKey fasthash32 key keySize"
    by (simp add: hashKey_def)
  have one: "(0 :: u32) < 1" by simp
  have pos: "0 < hashKey fasthash32 key keySize"
    by (rule less_le_trans [OF one le])
  have clamp: "hashKey fasthash32 key keySize = (if ?h = 0 then 1 else ?h)"
  proof (cases "?h = 0")
    case True
    then show ?thesis by (simp add: hashKey_def)
  next
    case False
    then have "1 \<le> ?h" by (simp add: word_le_nat_alt Suc_le_eq unat_gt_0)
    with False show ?thesis by (simp add: hashKey_def max_def)
  qed
  from le pos clamp show ?thesis by simp
qed

subsection \<open>freeValue frees a value once, after its last release\<close>

lemma refCount_freeValue_step: "refCount (snd (freeValue_step v s)) = refCount (snd s)"
  by (cases "fst s") (simp_all add: freeValue_step_def)

lemma freeValue_inv_step:
  assumes "freeValue_inv v s" and "e = FreeValue \<or> 0 < refCount (snd s) v"
  shows "freeValue_inv v (step v e s)"
proof (cases e)
  case Lease
  with assms show ?thesis
    by (cases "fst s") (auto simp: freeValue_inv_def lease_def)
next
  case Release
  with assms show ?thesis
    by (cases "fst s") (auto simp: freeValue_inv_def release_def)
next
  case FreeValue
  with assms(1) show ?thesis
    by (cases "fst s") (auto simp: freeValue_inv_def freeValue_step_def)
qed

lemma freeValue_inv_run:
  "freeValue_inv v s \<Longrightarrow> admissible v es s \<Longrightarrow> freeValue_inv v (run v es s)"
  by (induction es arbitrary: s) (simp_all add: freeValue_inv_step)

lemma admissible_append:
  "admissible v (xs @ ys) s = (admissible v xs s \<and> admissible v ys (run v xs s))"
  by (induction xs arbitrary: s) auto

lemma admissible_no_lease_left:
  "refCount (snd s) v \<le> 0 \<Longrightarrow> admissible v es s \<Longrightarrow> Lease \<notin> set es \<and> Release \<notin> set es"
proof (induction es arbitrary: s)
  case Nil
  show ?case by simp
next
  case (Cons e es)
  from Cons.prems have e: "e = FreeValue" and rest: "admissible v es (step v e s)" by auto
  from e Cons.prems(1) have "refCount (snd (step v e s)) v \<le> 0"
    by (simp add: refCount_freeValue_step)
  from Cons.IH [OF this rest] e show ?case by simp
qed

lemma freeValue_finishes:
  assumes "freeValue_inv v s" and "refCount (snd s) v = 0"
  shows "fst (run v [FreeValue, FreeValue] s) = Returned
    \<and> deleted (snd (run v [FreeValue, FreeValue] s)) v = 1"
  using assms by (cases "fst s") (auto simp: freeValue_inv_def freeValue_step_def)

text \<open>
  Claim C1. \<^verbatim>\<open>freeValue(v)\<close> is called, after \<open>v\<close> is unlinked from all tables, on a value
  that has never been deleted and has any number \<open>refCount h v \<ge> 0\<close> of unreleased leases
  (what the leases and releases before the call left behind). Let \<open>es\<close> be any admissible
  schedule of further leases, releases and steps of \<^verbatim>\<open>freeValue\<close>, and \<open>(pc', h')\<close> the state
  after any number \<open>n\<close> of its events. Then \<open>v\<close> has been deleted at most once; while an
  unreleased lease exists it has not been deleted and \<^verbatim>\<open>freeValue\<close> is still in its loop;
  it has been deleted exactly when \<^verbatim>\<open>freeValue\<close> has returned; once \<^verbatim>\<open>freeValue\<close> has left
  its loop the count is zero and the rest of the schedule contains neither a lease nor a
  release (the last release came before); and as soon as the count is zero, the next two
  steps of \<^verbatim>\<open>freeValue\<close> delete the value and return.
\<close>

theorem freeValue_frees_once_after_last_release:
  assumes "0 \<le> refCount h v" and "deleted h v = 0" and "admissible v es (Polling, h)"
    and "run v (take n es) (Polling, h) = (pc', h')"
  shows "deleted h' v \<le> 1
    \<and> (0 < refCount h' v \<longrightarrow> deleted h' v = 0 \<and> pc' = Polling)
    \<and> (deleted h' v = 1) = (pc' = Returned)
    \<and> (pc' \<noteq> Polling \<longrightarrow>
          refCount h' v = 0 \<and> Lease \<notin> set (drop n es) \<and> Release \<notin> set (drop n es))
    \<and> (refCount h' v = 0 \<longrightarrow>
          fst (run v [FreeValue, FreeValue] (pc', h')) = Returned
          \<and> deleted (snd (run v [FreeValue, FreeValue] (pc', h'))) v = 1)"
proof -
  have init: "freeValue_inv v (Polling, h)"
    using assms(1,2) by (simp add: freeValue_inv_def)
  from assms(3) have "admissible v (take n es @ drop n es) (Polling, h)" by simp
  then have adm1: "admissible v (take n es) (Polling, h)"
    and adm2: "admissible v (drop n es) (pc', h')"
    using assms(4) by (simp_all only: admissible_append)
  from freeValue_inv_run [OF init adm1] assms(4) have inv: "freeValue_inv v (pc', h')" by simp
  have a: "deleted h' v \<le> 1"
    using inv by (cases pc') (simp_all add: freeValue_inv_def)
  have b: "0 < refCount h' v \<longrightarrow> deleted h' v = 0 \<and> pc' = Polling"
    using inv by (cases pc') (simp_all add: freeValue_inv_def)
  have c: "(deleted h' v = 1) = (pc' = Returned)"
    using inv by (cases pc') (simp_all add: freeValue_inv_def)
  have d: "pc' \<noteq> Polling \<longrightarrow>
      refCount h' v = 0 \<and> Lease \<notin> set (drop n es) \<and> Release \<notin> set (drop n es)"
  proof
    assume "pc' \<noteq> Polling"
    with inv have z: "refCount h' v = 0"
      by (cases pc') (simp_all add: freeValue_inv_def)
    then have "refCount (snd (pc', h')) v \<le> 0" by simp
    from admissible_no_lease_left [OF this adm2] z
    show "refCount h' v = 0 \<and> Lease \<notin> set (drop n es) \<and> Release \<notin> set (drop n es)"
      by simp
  qed
  have e: "refCount h' v = 0 \<longrightarrow>
      fst (run v [FreeValue, FreeValue] (pc', h')) = Returned
      \<and> deleted (snd (run v [FreeValue, FreeValue] (pc', h'))) v = 1"
    using freeValue_finishes [OF inv] by simp
  from a b c d e show ?thesis by blast
qed

theorem freeValue_frees_once_after_last_release_witness:
  "0 \<le> refCount example_store 5 \<and> deleted example_store 5 = 0
   \<and> admissible 5 example_schedule (Polling, example_store)
   \<and> refCount (snd (run 5 (take 3 example_schedule) (Polling, example_store))) 5 = 2
   \<and> deleted (snd (run 5 (take 3 example_schedule) (Polling, example_store))) 5 = 0
   \<and> fst (run 5 (take 3 example_schedule) (Polling, example_store)) = Polling
   \<and> refCount (snd (run 5 (take 7 example_schedule) (Polling, example_store))) 5 = 0
   \<and> deleted (snd (run 5 (take 7 example_schedule) (Polling, example_store))) 5 = 1
   \<and> fst (run 5 (take 7 example_schedule) (Polling, example_store)) = Returned"
proof -
  have h: "0 \<le> refCount example_store 5" "deleted example_store 5 = 0"
    "admissible 5 example_schedule (Polling, example_store)"
    by (simp_all add: example_store_def example_schedule_def lease_def release_def
        freeValue_step_def)
  have r3: "run 5 (take 3 example_schedule) (Polling, example_store) =
      (fst (run 5 (take 3 example_schedule) (Polling, example_store)),
       snd (run 5 (take 3 example_schedule) (Polling, example_store)))"
    by simp
  have r7: "run 5 (take 7 example_schedule) (Polling, example_store) =
      (fst (run 5 (take 7 example_schedule) (Polling, example_store)),
       snd (run 5 (take 7 example_schedule) (Polling, example_store)))"
    by simp
  have c3: "refCount (snd (run 5 (take 3 example_schedule) (Polling, example_store))) 5 = 2"
    by (simp add: example_store_def example_schedule_def lease_def release_def
        freeValue_step_def)
  have c7: "refCount (snd (run 5 (take 7 example_schedule) (Polling, example_store))) 5 = 0"
    by (simp add: example_store_def example_schedule_def lease_def release_def
        freeValue_step_def)
  have p7: "fst (run 5 (take 7 example_schedule) (Polling, example_store)) = Returned"
    by (simp add: example_store_def example_schedule_def lease_def release_def
        freeValue_step_def)
  from freeValue_frees_once_after_last_release [OF h r3]
    freeValue_frees_once_after_last_release [OF h r7] h c3 c7 p7
  show ?thesis by simp
qed


subsection \<open>Every live Finding holds exactly one lease\<close>

lemma count_refs_fresh:
  "f \<notin> set xs \<Longrightarrow> count_refs (fv(f := p)) v xs = count_refs fv v xs"
  by (induction xs) auto

lemma count_refs_update:
  "distinct xs \<Longrightarrow> f \<in> set xs \<Longrightarrow>
   int (count_refs (fv(f := p)) v xs) =
   int (count_refs fv v xs) - (if fv f = Some v then 1 else 0) + (if p = Some v then 1 else 0)"
  by (induction xs) (auto simp: count_refs_fresh)

lemma count_refs_removeAll:
  "distinct xs \<Longrightarrow> f \<in> set xs \<Longrightarrow>
   int (count_refs fv v (removeAll f xs)) =
   int (count_refs fv v xs) - (if fv f = Some v then 1 else 0)"
  by (induction xs) auto

lemmas Finding_defs =
  Finding_ctor_def Finding_copy_ctor_def Finding_move_ctor_def Finding_dtor_def
  lease_if_found_def release_if_found_def lease_def release_def

lemma other_leases_ctor:
  "this \<notin> set (live h) \<Longrightarrow> other_leases (Finding_ctor this p h) w = other_leases h w"
  by (cases p) (simp_all add: other_leases_def holders_def Finding_defs count_refs_fresh)

lemma other_leases_copy_ctor:
  "this \<notin> set (live h) \<Longrightarrow>
   other_leases (Finding_copy_ctor this other h) w = other_leases h w"
  by (cases "Finding_value h other")
     (simp_all add: other_leases_def holders_def Finding_defs count_refs_fresh)

lemma other_leases_move_ctor:
  assumes "this \<notin> set (live h)" and "distinct (live h)" and "other \<in> set (live h)"
  shows "other_leases (Finding_move_ctor this other h) w = other_leases h w"
proof -
  from assms have ne: "this \<noteq> other" by auto
  then have twist:
    "(Finding_value h)(this := Finding_value h other, other := None) =
     ((Finding_value h)(other := None))(this := Finding_value h other)"
    by (simp add: fun_upd_twist)
  from assms ne show ?thesis
    by (simp add: other_leases_def holders_def Finding_defs twist
        count_refs_fresh count_refs_update)
qed

lemma other_leases_dtor:
  "distinct (live h) \<Longrightarrow> this \<in> set (live h) \<Longrightarrow>
   other_leases (Finding_dtor this h) w = other_leases h w"
  by (cases "Finding_value h this")
     (simp_all add: other_leases_def holders_def Finding_defs count_refs_removeAll)

text \<open>
  Claim C5. Constructing the \<^verbatim>\<open>Finding\<close> at \<open>this\<close> from any non-null pointer \<open>u\<close> takes
  exactly one lease of \<open>u\<close>, whether or not another handle refers to \<open>u\<close> already, and
  constructing it from \<^verbatim>\<open>nullptr\<close> takes none. When \<open>other\<close> is a \<^verbatim>\<open>Finding\<close> that refers to
  the value \<open>v\<close>: copy-constructing \<open>this\<close> from \<open>other\<close> takes one more lease of \<open>v\<close> and
  both then refer to \<open>v\<close>; move-constructing \<open>this\<close> from \<open>other\<close> leaves \<open>other\<close> empty,
  makes \<open>this\<close> refer to \<open>v\<close> and changes no lease count; destroying \<open>other\<close> releases
  exactly one lease of \<open>v\<close>, and destroying an empty \<^verbatim>\<open>Finding\<close> releases none. No other
  value's count changes. Each of the four operations keeps, for every value \<open>w\<close>, the
  difference between its lease count and the number of live \<^verbatim>\<open>Finding\<close>s that refer to
  it: every live \<^verbatim>\<open>Finding\<close> accounts for exactly one lease of its value.
\<close>

theorem Finding_holds_one_lease:
  "(refCount (Finding_ctor this (Some u) h) = (refCount h)(u := refCount h u + 1)
      \<and> Finding_value (Finding_ctor this (Some u) h) this = Some u
      \<and> live (Finding_ctor this (Some u) h) = this # live h
      \<and> refCount (Finding_ctor this None h) = refCount h)
   \<and> (Finding_value h other = Some v \<longrightarrow>
        refCount (Finding_copy_ctor this other h) = (refCount h)(v := refCount h v + 1)
        \<and> Finding_value (Finding_copy_ctor this other h) this = Some v
        \<and> refCount (Finding_move_ctor this other h) = refCount h
        \<and> refCount (Finding_dtor other h) = (refCount h)(v := refCount h v - 1))
   \<and> (Finding_value h other = Some v \<and> this \<noteq> other \<longrightarrow>
        Finding_value (Finding_copy_ctor this other h) other = Some v
        \<and> Finding_value (Finding_move_ctor this other h) this = Some v
        \<and> Finding_value (Finding_move_ctor this other h) other = None)
   \<and> (Finding_value h other = None \<longrightarrow> refCount (Finding_dtor other h) = refCount h)
   \<and> other \<notin> set (live (Finding_dtor other h))
   \<and> (this \<notin> set (live h) \<longrightarrow>
        (\<forall>w. other_leases (Finding_ctor this (Some u) h) w = other_leases h w)
        \<and> (\<forall>w. other_leases (Finding_copy_ctor this other h) w = other_leases h w))
   \<and> (distinct (live h) \<and> this \<notin> set (live h) \<and> other \<in> set (live h) \<longrightarrow>
        (\<forall>w. other_leases (Finding_move_ctor this other h) w = other_leases h w))
   \<and> (distinct (live h) \<and> other \<in> set (live h) \<longrightarrow>
        (\<forall>w. other_leases (Finding_dtor other h) w = other_leases h w))"
proof -
  have ctor: "refCount (Finding_ctor this (Some u) h) = (refCount h)(u := refCount h u + 1)
      \<and> Finding_value (Finding_ctor this (Some u) h) this = Some u
      \<and> live (Finding_ctor this (Some u) h) = this # live h
      \<and> refCount (Finding_ctor this None h) = refCount h"
    by (simp add: Finding_defs)
  have counts: "Finding_value h other = Some v \<longrightarrow>
        refCount (Finding_copy_ctor this other h) = (refCount h)(v := refCount h v + 1)
        \<and> Finding_value (Finding_copy_ctor this other h) this = Some v
        \<and> refCount (Finding_move_ctor this other h) = refCount h
        \<and> refCount (Finding_dtor other h) = (refCount h)(v := refCount h v - 1)"
    by (simp add: Finding_defs)
  have ptrs: "Finding_value h other = Some v \<and> this \<noteq> other \<longrightarrow>
        Finding_value (Finding_copy_ctor this other h) other = Some v
        \<and> Finding_value (Finding_move_ctor this other h) this = Some v
        \<and> Finding_value (Finding_move_ctor this other h) other = None"
    by (simp add: Finding_defs)
  have empty: "Finding_value h other = None \<longrightarrow> refCount (Finding_dtor other h) = refCount h"
    by (simp add: Finding_defs)
  have gone: "other \<notin> set (live (Finding_dtor other h))"
    by (cases "Finding_value h other") (simp_all add: Finding_defs)
  have inv1: "this \<notin> set (live h) \<longrightarrow>
        (\<forall>w. other_leases (Finding_ctor this (Some u) h) w = other_leases h w)
        \<and> (\<forall>w. other_leases (Finding_copy_ctor this other h) w = other_leases h w)"
    by (simp add: other_leases_ctor other_leases_copy_ctor)
  have inv2: "distinct (live h) \<and> this \<notin> set (live h) \<and> other \<in> set (live h) \<longrightarrow>
        (\<forall>w. other_leases (Finding_move_ctor this other h) w = other_leases h w)"
    by (simp add: other_leases_move_ctor)
  have inv3: "distinct (live h) \<and> other \<in> set (live h) \<longrightarrow>
        (\<forall>w. other_leases (Finding_dtor other h) w = other_leases h w)"
    by (simp add: other_leases_dtor)
  from ctor counts ptrs empty gone inv1 inv2 inv3 show ?thesis by blast
qed

theorem Finding_holds_one_lease_witness:
  "live empty_store = [] \<and> refCount empty_store 5 = 0
   \<and> refCount (Finding_ctor 1 (Some 5) empty_store) 5 = 1
   \<and> refCount (Finding_ctor 1 (Some 5) empty_store) 6 = 0
   \<and> Finding_value (Finding_ctor 1 (Some 5) empty_store) 1 = Some 5
   \<and> other_leases (Finding_ctor 1 (Some 5) empty_store) 5 = 0
   \<and> refCount (Finding_ctor 1 None empty_store) 5 = 0
   \<and> Finding_ctor 1 (Some 5) empty_store = example_store
   \<and> distinct (live example_store) \<and> 2 \<notin> set (live example_store)
   \<and> 1 \<in> set (live example_store) \<and> Finding_value example_store 1 = Some 5
   \<and> refCount example_store 5 = 1
   \<and> refCount (Finding_ctor 2 (Some 5) example_store) 5 = 2
   \<and> refCount (Finding_copy_ctor 2 1 example_store) 5 = 2
   \<and> refCount (Finding_move_ctor 2 1 example_store) 5 = 1
   \<and> Finding_value (Finding_move_ctor 2 1 example_store) 1 = None
   \<and> Finding_value (Finding_move_ctor 2 1 example_store) 2 = Some 5
   \<and> refCount (Finding_dtor 1 example_store) 5 = 0
   \<and> other_leases (Finding_copy_ctor 2 1 example_store) 5 = other_leases example_store 5"
proof -
  have e: "live empty_store = []" "refCount empty_store 5 = 0" "refCount empty_store 6 = 0"
    "other_leases empty_store 5 = 0" "1 \<notin> set (live empty_store)"
    by (simp_all add: empty_store_def other_leases_def holders_def)
  have same: "Finding_ctor 1 (Some 5) empty_store = example_store"
    by (simp add: Finding_defs empty_store_def example_store_def)
  have h: "distinct (live example_store)" "2 \<notin> set (live example_store)"
    "1 \<in> set (live example_store)" "Finding_value example_store 1 = Some 5"
    "(2 :: nat) \<noteq> 1"
    by (simp_all add: example_store_def)
  have r: "refCount example_store 5 = 1"
    by (simp add: example_store_def)
  from Finding_holds_one_lease [of 1 5 empty_store 1 5]
    Finding_holds_one_lease [of 2 5 example_store 1 5] e same h r
  show ?thesis by simp
qed

subsection \<open>Self-assignment of a Finding\<close>

text \<open>
  Claim C10. Copy-assigning or move-assigning a \<^verbatim>\<open>Finding\<close> to itself (\<^verbatim>\<open>&other == this\<close>)
  changes nothing: the store is the same afterwards, so the pointer the \<^verbatim>\<open>Finding\<close> holds
  and every value's lease count are unchanged, and no lease is released.
\<close>

theorem Finding_self_assignment:
  "Finding_assign_copy this this h = h
   \<and> Finding_assign_move this this h = h
   \<and> Finding_value (Finding_assign_copy this this h) this = Finding_value h this
   \<and> Finding_value (Finding_assign_move this this h) this = Finding_value h this
   \<and> refCount (Finding_assign_copy this this h) = refCount h
   \<and> refCount (Finding_assign_move this this h) = refCount h"
  by (simp add: Finding_assign_copy_def Finding_assign_move_def)

subsection \<open>Facts about the lock and the flags\<close>

lemmas State_defs =
  State_lock_def State_unlock_def State_clear_def toggleFlag_def isSet_def isLocked_def

text \<open>
  A cache is dead when its \<^verbatim>\<open>shutdown\<close> flag is set and nobody holds its lock. The flag is
  terminal: no function of the cache that returns clears it.
\<close>

lemma shutdown_leaves_flag:
  assumes "shutdown others c = Inr c'"
  shows "Flag_shutdown \<in> c_state c' \<and> Flag_locked \<notin> c_state c'"
  using assms
  by (auto simp: shutdown_def State_defs Let_def split: if_splits option.splits)

lemma limit_when_shutdown:
  "Flag_shutdown \<in> c_state c \<Longrightarrow> Flag_locked \<notin> c_state c \<Longrightarrow> limit c = Inr (0, c)"
  by (simp add: limit_def isOperational_def State_defs Let_def)

lemma usage_when_shutdown:
  "Flag_shutdown \<in> c_state c \<Longrightarrow> Flag_locked \<notin> c_state c \<Longrightarrow> usage c = Inr (0, c)"
  by (simp add: usage_def isOperational_def State_defs Let_def)

lemma resize_when_shutdown:
  "Flag_shutdown \<in> c_state c \<Longrightarrow> Flag_locked \<notin> c_state c \<Longrightarrow>
   resize mgr now polls requestedLimit c = Inr (False, c)"
  by (simp add: resize_def isOperational_def State_defs Let_def startOperation_def
      endOperation_def)

lemma beginShutdown_when_shutdown:
  "Flag_shutdown \<in> c_state c \<Longrightarrow> Flag_locked \<notin> c_state c \<Longrightarrow> beginShutdown c = c"
  by (simp add: beginShutdown_def State_defs)

lemma shutdown_when_shutdown:
  "Flag_shutdown \<in> c_state c \<Longrightarrow> Flag_locked \<notin> c_state c \<Longrightarrow>
   shutdown others c = Inr c"
  by (simp add: shutdown_def State_defs)

lemma beginShutdown_keeps_shutdown:
  "Flag_shutdown \<in> c_state c \<Longrightarrow> Flag_shutdown \<in> c_state (beginShutdown c)"
  by (simp add: beginShutdown_def State_defs)

lemma requestResize_keeps_shutdown:
  "Flag_shutdown \<in> c_state c \<Longrightarrow>
   requestResize mgr now free requestedLimit internal c = Inr (r, c') \<Longrightarrow>
   Flag_shutdown \<in> c_state c'"
  by (auto simp: requestResize_def State_defs Let_def split: if_splits option.splits)

lemma requestMigrate_keeps_shutdown:
  "Flag_shutdown \<in> c_state c \<Longrightarrow>
   requestMigrate mgr now free requestedLogSize c = Inr c' \<Longrightarrow>
   Flag_shutdown \<in> c_state c'"
  by (auto simp: requestMigrate_def isMigrating_def State_defs Let_def
      split: if_splits option.splits)

text \<open>\<^verbatim>\<open>requestMigrate\<close> never writes the next allowed migrate time.\<close>

lemma requestMigrate_keeps_migrateRequestTime:
  "requestMigrate mgr now free requestedLogSize c = Inr c' \<Longrightarrow>
   c_migrateRequestTime c' = c_migrateRequestTime c"
  by (auto simp: requestMigrate_def isMigrating_def State_defs Let_def
      split: if_splits option.splits)

text \<open>The drain loop ends as soon as the other threads have brought the counter to zero.\<close>

lemma drain_returns:
  "k \<le> length ds \<Longrightarrow> c_openOperations c + sum_list (take k ds) \<le> 0 \<Longrightarrow>
   \<exists>c'. drain ds c = Some c'"
proof (induction ds arbitrary: c k)
  case Nil
  then show ?case by simp
next
  case (Cons d ds)
  show ?case
  proof (cases k)
    case 0
    with Cons.prems show ?thesis by simp
  next
    case (Suc j)
    with Cons.prems have "j \<le> length ds"
      and "c_openOperations (c\<lparr>c_openOperations := c_openOperations c + d\<rparr>)
            + sum_list (take j ds) \<le> 0"
      by (simp_all add: add.assoc)
    from Cons.IH [OF this] show ?thesis by simp
  qed
qed

subsection \<open>After shutdown\<close>

text \<open>
  Claim C6. Once \<^verbatim>\<open>shutdown()\<close> has returned, leaving the cache \<open>c'\<close>: \<^verbatim>\<open>limit()\<close> returns 0,
  \<^verbatim>\<open>usage()\<close> returns 0, and \<^verbatim>\<open>resize()\<close>, whatever limit is requested and whatever the
  coordinator would answer, returns false. Each of the three calls leaves the cache exactly
  as it was, so no call to the coordinator is added to its record; \<^verbatim>\<open>beginShutdown()\<close> and
  a further \<^verbatim>\<open>shutdown()\<close> leave it as it was, too. So the same holds again for every later
  call.
\<close>

theorem after_shutdown_queries_zero_resize_false:
  assumes "shutdown others c = Inr c'"
  shows "limit c' = Inr (0, c') \<and> usage c' = Inr (0, c')
    \<and> resize mgr now polls requestedLimit c' = Inr (False, c')
    \<and> isSet (c_state c') Flag_shutdown
    \<and> beginShutdown c' = c' \<and> shutdown others' c' = Inr c'"
  using shutdown_leaves_flag [OF assms]
  by (simp add: limit_when_shutdown usage_when_shutdown resize_when_shutdown isSet_def
      beginShutdown_when_shutdown shutdown_when_shutdown)

theorem after_shutdown_queries_zero_resize_false_witness:
  "shutdown [0, - 1] (example_cache\<lparr>c_openOperations := 1\<rparr>) =
     Inr (example_cache\<lparr>c_state := {Flag_shutdown}, c_metadata := None,
                        c_calls := [UnregisterCache]\<rparr>)
   \<and> limit (example_cache\<lparr>c_state := {Flag_shutdown}, c_metadata := None,
                           c_calls := [UnregisterCache]\<rparr>) =
     Inr (0, example_cache\<lparr>c_state := {Flag_shutdown}, c_metadata := None,
                            c_calls := [UnregisterCache]\<rparr>)
   \<and> usage (example_cache\<lparr>c_state := {Flag_shutdown}, c_metadata := None,
                           c_calls := [UnregisterCache]\<rparr>) =
     Inr (0, example_cache\<lparr>c_state := {Flag_shutdown}, c_metadata := None,
                            c_calls := [UnregisterCache]\<rparr>)
   \<and> resize example_manager 20 [] 5000
       (example_cache\<lparr>c_state := {Flag_shutdown}, c_metadata := None,
                      c_calls := [UnregisterCache]\<rparr>) =
     Inr (False, example_cache\<lparr>c_state := {Flag_shutdown}, c_metadata := None,
                                c_calls := [UnregisterCache]\<rparr>)"
proof -
  have h: "shutdown [0, - 1] (example_cache\<lparr>c_openOperations := 1\<rparr>) =
     Inr (example_cache\<lparr>c_state := {Flag_shutdown}, c_metadata := None,
                        c_calls := [UnregisterCache]\<rparr>)"
    by (simp add: shutdown_def State_defs example_cache_def Let_def insert_Diff_if)
  from after_shutdown_queries_zero_resize_false [OF h, of example_manager 20 "[]" 5000] h
  show ?thesis by simp
qed

subsection \<open>A cache whose registration fails\<close>

text \<open>
  Claim C8. When \<^verbatim>\<open>registerCache\<close> fails with \<^verbatim>\<open>std::bad_alloc\<close>, the constructor still returns
  a cache (the exception does not leave it), and that cache has its \<^verbatim>\<open>shutdown\<close> flag set.
  On it \<^verbatim>\<open>limit()\<close> and \<^verbatim>\<open>usage()\<close> return 0 and \<^verbatim>\<open>resize()\<close> returns false, for every
  requested limit and every coordinator, and these calls as well as \<^verbatim>\<open>beginShutdown()\<close> and
  \<^verbatim>\<open>shutdown()\<close> leave the cache as it is.
\<close>

theorem failed_registration_born_dead:
  assumes "Manager_registerCache mgr requestedLimit = Inl bad_alloc"
  shows "\<exists>c. Cache_ctor mgr now1 now2 requestedLimit allowGrowth = Inr c
      \<and> isSet (c_state c) Flag_shutdown
      \<and> limit c = Inr (0, c) \<and> usage c = Inr (0, c)
      \<and> (\<forall>mgr' now polls newLimit. resize mgr' now polls newLimit c = Inr (False, c))
      \<and> beginShutdown c = c
      \<and> (\<forall>others. shutdown others c = Inr c)"
proof -
  let ?c = "\<lparr>c_state = {Flag_shutdown}, c_allowGrowth = allowGrowth, c_evictionStats = [],
             c_insertionCount = 0, c_openOperations = 0,
             c_migrateRequestTime = now1, c_resizeRequestTime = now2,
             c_metadata = None, c_calls = [RegisterCache requestedLimit]\<rparr>"
  have ctor: "Cache_ctor mgr now1 now2 requestedLimit allowGrowth = Inr ?c"
    using assms by (simp add: Cache_ctor_def State_defs)
  have flags: "Flag_shutdown \<in> c_state ?c" "Flag_locked \<notin> c_state ?c"
    by simp_all
  from ctor flags show ?thesis
    by (simp add: limit_when_shutdown usage_when_shutdown resize_when_shutdown isSet_def
        beginShutdown_when_shutdown shutdown_when_shutdown)
qed

theorem failed_registration_born_dead_witness:
  "Manager_registerCache example_manager 1000 = Inl bad_alloc
   \<and> (\<exists>c. Cache_ctor example_manager 1 2 1000 True = Inr c
        \<and> isSet (c_state c) Flag_shutdown
        \<and> limit c = Inr (0, c) \<and> usage c = Inr (0, c)
        \<and> resize example_manager 20 [] 5000 c = Inr (False, c))"
proof -
  have h: "Manager_registerCache example_manager 1000 = Inl bad_alloc"
    by (simp add: example_manager_def)
  from failed_registration_born_dead [OF h, of 1 2 True] h show ?thesis by blast
qed

subsection \<open>The new hard limit of requestResize\<close>

text \<open>
  Claim C7. When \<^verbatim>\<open>requestResize\<close> gets to compute a new hard limit (it holds the lock, and
  the request is external, or growth is allowed and the clock has passed the next allowed
  resize time), the limit it passes to the coordinator is \<^verbatim>\<open>requestedLimit\<close> if that is not
  zero, and twice the hard limit of the metadata otherwise (a 64-bit product, which is
  exactly twice the hard limit whenever that is below \<open>2^63\<close>). The time the coordinator
  returns becomes the next allowed resize time, and the result is the coordinator's
  acceptance; the time is stored whether the coordinator accepts or not.
\<close>

theorem requestResize_new_limit:
  assumes "\<not> internal \<or> free"
    and "\<not> internal \<or> (c_allowGrowth c \<and> c_resizeRequestTime c < now)"
    and "c_metadata c = Some m"
    and "newLimit = (if requestedLimit \<noteq> 0 then requestedLimit else 2 * md_hardLimit m)"
  shows "requestResize mgr now free requestedLimit internal c =
           Inr (fst (Manager_requestResize mgr m newLimit),
                c\<lparr>c_resizeRequestTime := snd (Manager_requestResize mgr m newLimit),
                  c_calls := c_calls c @ [RequestResize newLimit],
                  c_state := c_state c - {Flag_locked}\<rparr>)
    \<and> (requestedLimit = 0 \<and> unat (md_hardLimit m) < 2 ^ 63
         \<longrightarrow> unat newLimit = 2 * unat (md_hardLimit m))"
proof -
  have nz: "(0 < requestedLimit) = (requestedLimit \<noteq> 0)"
    by (simp add: word_neq_0_conv)
  have run: "requestResize mgr now free requestedLimit internal c =
           Inr (fst (Manager_requestResize mgr m newLimit),
                c\<lparr>c_resizeRequestTime := snd (Manager_requestResize mgr m newLimit),
                  c_calls := c_calls c @ [RequestResize newLimit],
                  c_state := c_state c - {Flag_locked}\<rparr>)"
    using assms
    by (cases internal) (auto simp add: requestResize_def State_defs Let_def nz mult.commute)
  have dbl: "requestedLimit = 0 \<and> unat (md_hardLimit m) < 2 ^ 63
         \<longrightarrow> unat newLimit = 2 * unat (md_hardLimit m)"
  proof
    assume a: "requestedLimit = 0 \<and> unat (md_hardLimit m) < 2 ^ 63"
    then have "unat (2 * md_hardLimit m) = (2 * unat (md_hardLimit m)) mod 2 ^ 64"
      by (simp add: unat_word_ariths)
    also have "\<dots> = 2 * unat (md_hardLimit m)"
      using a by simp
    finally show "unat newLimit = 2 * unat (md_hardLimit m)"
      using a assms(4) by simp
  qed
  from run dbl show ?thesis by blast
qed

theorem requestResize_new_limit_witness:
  "c_allowGrowth example_cache \<and> c_resizeRequestTime example_cache < 20
   \<and> c_metadata example_cache = Some example_metadata
   \<and> requestResize example_manager 20 True 0 True example_cache =
       Inr (False, example_cache\<lparr>c_resizeRequestTime := 100,
                                 c_calls := [RequestResize 4000]\<rparr>)
   \<and> requestResize example_manager 5 False 3000 False example_cache =
       Inr (False, example_cache\<lparr>c_resizeRequestTime := 100,
                                 c_calls := [RequestResize 3000]\<rparr>)"
proof -
  have h: "c_allowGrowth example_cache \<and> c_resizeRequestTime example_cache < 20"
    "c_metadata example_cache = Some example_metadata"
    by (simp_all add: example_cache_def)
  have i: "\<not> True \<or> True" "\<not> True \<or> (c_allowGrowth example_cache \<and> c_resizeRequestTime example_cache < 20)"
    using h by simp_all
  have e: "\<not> False \<or> False" "\<not> False \<or> (c_allowGrowth example_cache \<and> c_resizeRequestTime example_cache < 5)"
    by simp_all
  have n0: "(4000 :: u64) = (if (0 :: u64) \<noteq> 0 then 0 else 2 * md_hardLimit example_metadata)"
    by (simp add: example_metadata_def)
  have n1: "(3000 :: u64) = (if (3000 :: u64) \<noteq> 0 then 3000 else 2 * md_hardLimit example_metadata)"
    by simp
  have s: "c_state example_cache - {Flag_locked} = c_state example_cache"
    "c_calls example_cache = []"
    by (simp_all add: example_cache_def)
  from requestResize_new_limit [OF i h(2) n0, of example_manager]
    requestResize_new_limit [OF e h(2) n1, of example_manager] h s
  show ?thesis by (simp add: example_manager_def)
qed

subsection \<open>The adaptive migrate trigger\<close>

text \<open>
  Claim C2, as stated, fails. With a breakdown of 10 evictions and 5 other outcomes the
  top count 10 is below 16 times the second count 5, and at the 4096th insertion
  \<^verbatim>\<open>requestMigrate\<close> calls the coordinator all the same. It does so for either order of the
  two entries in the breakdown.
\<close>

theorem requestMigrate_two_tags_counterexample:
  "c_evictionStats example_cache = [(eviction, 10), (noEviction, 5)]
   \<and> (10 :: nat) < 16 * 5
   \<and> map_sum id c_calls (requestMigrate example_manager 20 True 0 example_cache) =
       Inr [RequestMigrate 11]
   \<and> map_sum id c_calls
        (requestMigrate example_manager 20 True 0
           (example_cache\<lparr>c_evictionStats := [(noEviction, 5), (eviction, 10)]\<rparr>)) =
       Inr [RequestMigrate 11]"
  by (simp add: requestMigrate_def migratePressure_def isMigrating_def State_defs
      example_cache_def example_manager_def example_metadata_def Let_def)

text \<open>
  Claim C2, amended. At an insertion whose count is a multiple of 4096, on a registered
  cache whose breakdown has exactly two entries, \<^verbatim>\<open>requestMigrate\<close> calls the coordinator
  exactly when 16 times the count of the first entry exceeds the count of the second entry
  (in 64-bit arithmetic), the bounded lock attempt succeeds, the cache is not migrating and
  the clock has passed the next allowed migrate time; the log-size it asks for is the
  requested one if that is not zero and the current log-size plus one otherwise. Otherwise
  it makes no call. A top count below 16 times the second does not prevent the call.
\<close>

theorem requestMigrate_two_tags:
  assumes "length (c_evictionStats c) = 2"
    and "(c_insertionCount c + 1) AND 0xFFF = 0"
    and "c_metadata c = Some m"
  shows "map_sum id c_calls (requestMigrate mgr now free requestedLogSize c) =
     Inr (if snd (c_evictionStats c ! 0) * 16 > snd (c_evictionStats c ! 1)
             \<and> free \<and> \<not> isSet (c_state c) Flag_migrating \<and> c_migrateRequestTime c < now
          then c_calls c @
                 [RequestMigrate (if requestedLogSize \<noteq> 0 then requestedLogSize
                                  else md_logSize m + 1)]
          else c_calls c)"
proof -
  have nz: "(0 < requestedLogSize) = (requestedLogSize \<noteq> 0)"
    by (simp add: word_neq_0_conv)
  show ?thesis
    using assms
    by (simp add: requestMigrate_def migratePressure_def isMigrating_def State_defs
        Let_def nz)
qed

theorem requestMigrate_two_tags_witness:
  "length (c_evictionStats example_cache) = 2
   \<and> (c_insertionCount example_cache + 1) AND 0xFFF = 0
   \<and> c_metadata example_cache = Some example_metadata
   \<and> map_sum id c_calls (requestMigrate example_manager 20 True 0 example_cache) =
       Inr [RequestMigrate 11]
   \<and> map_sum id c_calls (requestMigrate example_manager 20 False 0 example_cache) = Inr []
   \<and> map_sum id c_calls (requestMigrate example_manager 10 True 0 example_cache) = Inr []"
proof -
  have h: "length (c_evictionStats example_cache) = 2"
    "(c_insertionCount example_cache + 1) AND 0xFFF = 0"
    "c_metadata example_cache = Some example_metadata"
    by (simp_all add: example_cache_def)
  have v: "c_evictionStats example_cache = [(eviction, 10), (noEviction, 5)]"
    "c_state example_cache = {}" "c_migrateRequestTime example_cache = 10"
    "c_calls example_cache = []" "md_logSize example_metadata = 10"
    by (simp_all add: example_cache_def example_metadata_def)
  from requestMigrate_two_tags [OF h, of example_manager 20 True 0]
    requestMigrate_two_tags [OF h, of example_manager 20 False 0]
    requestMigrate_two_tags [OF h, of example_manager 10 True 0] h v
  show ?thesis by (simp add: isSet_def)
qed

subsection \<open>The cooldown of the adaptive migrate trigger\<close>

text \<open>
  Claim C3 is what the code sets out to do and misses: \<^verbatim>\<open>requestMigrate\<close> tests the clock
  against \<^verbatim>\<open>_migrateRequestTime\<close> but stores the time the coordinator returns in
  \<^verbatim>\<open>_resizeRequestTime\<close>. On the example cache (next allowed migrate time 10) a request at
  time 20 is answered with the next allowed time 100; afterwards the next allowed migrate
  time is still 10 and the next allowed resize time is 100, and 4096 insertions later a
  request at time 30, before 100, calls the coordinator again.
\<close>

theorem requestMigrate_stores_resize_time:
  "requestMigrate example_manager 20 True 0 example_cache =
     Inr (example_cache\<lparr>c_insertionCount := 4096, c_resizeRequestTime := 100,
                        c_calls := [RequestMigrate 11]\<rparr>)
   \<and> c_migrateRequestTime
       (example_cache\<lparr>c_insertionCount := 4096, c_resizeRequestTime := 100,
                      c_calls := [RequestMigrate 11]\<rparr>) = 10
   \<and> requestMigrate example_manager 30 True 0
       (example_cache\<lparr>c_insertionCount := 8191, c_resizeRequestTime := 100,
                      c_calls := [RequestMigrate 11]\<rparr>) =
     Inr (example_cache\<lparr>c_insertionCount := 8192, c_resizeRequestTime := 100,
                        c_calls := [RequestMigrate 11, RequestMigrate 11]\<rparr>)"
  by (simp add: requestMigrate_def migratePressure_def isMigrating_def State_defs
      example_cache_def example_manager_def example_metadata_def Let_def)

subsection \<open>The operational gate\<close>

text \<open>
  Claim C4, as stated, fails for \<^verbatim>\<open>requestMigrate\<close>. After \<^verbatim>\<open>beginShutdown()\<close> the example
  cache has \<^verbatim>\<open>shuttingDown\<close> set and is not operational, and it has made no call to the
  coordinator; the next \<^verbatim>\<open>requestMigrate\<close> calls the coordinator.
\<close>

theorem requestMigrate_not_gated_counterexample:
  "isSet (c_state (beginShutdown example_cache)) Flag_shuttingDown
   \<and> isOperational (insert Flag_locked (c_state (beginShutdown example_cache))) = Inr False
   \<and> c_calls (beginShutdown example_cache) = []
   \<and> map_sum id c_calls
       (requestMigrate example_manager 20 True 0 (beginShutdown example_cache)) =
     Inr [RequestMigrate 11]"
  by (simp add: requestMigrate_def migratePressure_def isMigrating_def isOperational_def
      State_defs beginShutdown_def
      example_cache_def example_manager_def example_metadata_def Let_def)

text \<open>
  Claim C4, amended. \<^verbatim>\<open>resize\<close> checks \<^verbatim>\<open>isOperational()\<close> while it holds the lock of
  \<^verbatim>\<open>_state\<close> (the assertion in \<^verbatim>\<open>isOperational\<close> never fails there) and before any other
  work: once \<^verbatim>\<open>shutdown\<close> or \<^verbatim>\<open>shuttingDown\<close> is set, it returns false, makes no call to the
  coordinator and leaves the cache as it was, with the lock released. \<^verbatim>\<open>requestMigrate\<close>
  makes no such check: the calls it makes to the coordinator are the same whether or not
  \<^verbatim>\<open>shutdown\<close> or \<^verbatim>\<open>shuttingDown\<close> is set.
\<close>

theorem resize_checks_operational:
  "resize mgr now polls requestedLimit c \<noteq> Inl AssertionFailed
   \<and> (isSet (c_state c) Flag_shutdown \<or> isSet (c_state c) Flag_shuttingDown \<longrightarrow>
        resize mgr now polls requestedLimit c =
          Inr (False, c\<lparr>c_state := c_state c - {Flag_locked}\<rparr>))
   \<and> (X \<subseteq> {Flag_shutdown, Flag_shuttingDown} \<longrightarrow>
        map_sum id c_calls
          (requestMigrate mgr now free requestedLogSize (c\<lparr>c_state := c_state c \<union> X\<rparr>)) =
        map_sum id c_calls (requestMigrate mgr now free requestedLogSize c))"
proof -
  have a: "resize mgr now polls requestedLimit c \<noteq> Inl AssertionFailed"
    by (auto simp: resize_def requestResize_def isOperational_def State_defs Let_def
        split: option.splits)
  have b: "isSet (c_state c) Flag_shutdown \<or> isSet (c_state c) Flag_shuttingDown \<longrightarrow>
        resize mgr now polls requestedLimit c =
          Inr (False, c\<lparr>c_state := c_state c - {Flag_locked}\<rparr>)"
    by (auto simp: resize_def isOperational_def State_defs Let_def startOperation_def
        endOperation_def)
  have d: "X \<subseteq> {Flag_shutdown, Flag_shuttingDown} \<longrightarrow>
        map_sum id c_calls
          (requestMigrate mgr now free requestedLogSize (c\<lparr>c_state := c_state c \<union> X\<rparr>)) =
        map_sum id c_calls (requestMigrate mgr now free requestedLogSize c)"
    by (auto simp: requestMigrate_def isMigrating_def State_defs Let_def
        split: option.splits)
  from a b d show ?thesis by blast
qed

theorem resize_checks_operational_witness:
  "isSet (c_state (beginShutdown example_cache)) Flag_shuttingDown
   \<and> {Flag_shuttingDown} \<subseteq> {Flag_shutdown, Flag_shuttingDown}
   \<and> resize example_manager 20 [] 5000 (beginShutdown example_cache) =
       Inr (False, beginShutdown example_cache)
   \<and> map_sum id c_calls
       (requestMigrate example_manager 20 True 0
          (example_cache\<lparr>c_state := c_state example_cache \<union> {Flag_shuttingDown}\<rparr>)) =
     map_sum id c_calls (requestMigrate example_manager 20 True 0 example_cache)"
proof -
  have f: "isSet (c_state (beginShutdown example_cache)) Flag_shuttingDown"
    by (simp add: beginShutdown_def State_defs example_cache_def Let_def insert_Diff_if)
  have u: "(beginShutdown example_cache)
             \<lparr>c_state := c_state (beginShutdown example_cache) - {Flag_locked}\<rparr> =
           beginShutdown example_cache"
    by (simp add: beginShutdown_def State_defs example_cache_def Let_def insert_Diff_if)
  from resize_checks_operational
      [of example_manager 20 "[]" 5000 "beginShutdown example_cache" "{}" True 0]
    resize_checks_operational
      [of example_manager 20 "[]" 5000 example_cache "{Flag_shuttingDown}" True 0] f u
  show ?thesis by simp
qed

end
